theory Spec2Isabelle
  imports Complex_Main "HOL-Library.FSet"
begin

unbundle bit_operations_syntax

section \<open>Data model (models.py)\<close>

text \<open>
  Python integers are modelled as \<open>int\<close>, Python floats that carry times (seconds) as
  \<open>real\<close>, strings as \<open>string\<close>. \<open>datetime.now()\<close> is passed in as a clock reading.
\<close>

type_synonym datetime = nat

datatype error = ValueError | StructError

datatype RegisterType = HOLDING | INPUT | COIL | DISCRETE

datatype DataType = INT16 | UINT16 | INT32 | UINT32 | FLOAT | BOOL

datatype PortStatus = RUNNING | STOPPED | ERROR | CONNECTING | DISCONNECTED

text \<open>\<open>DataType.value\<close>: the string each member of the enum stands for.\<close>

fun data_type_value :: "DataType \<Rightarrow> string" where
  "data_type_value INT16 = ''int16''"
| "data_type_value UINT16 = ''uint16''"
| "data_type_value INT32 = ''int32''"
| "data_type_value UINT32 = ''uint32''"
| "data_type_value FLOAT = ''float''"
| "data_type_value BOOL = ''bool''"

record RegisterConfig =
  reg_type :: RegisterType
  address :: int
  reg_name :: string
  reg_scale :: real
  reg_offset :: real
  data_type :: DataType
  reg_precision :: int
  reg_byteorder :: string
  reg_wordorder :: string

record DeviceConfig =
  dev_name :: string
  dev_address :: int
  poll_interval :: real
  dev_enabled :: bool
  registers :: "RegisterConfig list"

record PortConfig =
  port_name :: string
  max_retries :: int
  retry_delay :: real
  devices :: "DeviceConfig list"

section \<open>Statistics recorder (port_manager.py, class PortStatistics)\<close>

record device_stat =
  ds_total_polls :: int
  ds_successful_polls :: int
  ds_failed_polls :: int
  ds_last_response_time :: real

record PortStatistics =
  stat_port_name :: string
  total_polls :: int
  successful_polls :: int
  failed_polls :: int
  response_times :: "real list"
  last_success :: "datetime option"
  last_error :: "datetime option"
  error_count :: int
  connected_devices :: "string fset"
  device_stats :: "string \<rightharpoonup> device_stat"

text \<open>\<open>PortStatistics.__init__\<close>.\<close>

definition init_statistics :: "string \<Rightarrow> PortStatistics" where
  "init_statistics name =
     \<lparr> stat_port_name = name, total_polls = 0, successful_polls = 0, failed_polls = 0,
       response_times = [], last_success = None, last_error = None, error_count = 0,
       connected_devices = {||}, device_stats = Map.empty \<rparr>"

text \<open>The factory of the \<open>defaultdict\<close> held in \<open>device_stats\<close>.\<close>

definition default_device_stat :: device_stat where
  "default_device_stat =
     \<lparr> ds_total_polls = 0, ds_successful_polls = 0, ds_failed_polls = 0,
       ds_last_response_time = 0 \<rparr>"

definition device_stat_of :: "PortStatistics \<Rightarrow> string \<Rightarrow> device_stat" where
  "device_stat_of s device_name =
     (case device_stats s device_name of None \<Rightarrow> default_device_stat | Some d \<Rightarrow> d)"

text \<open>
  \<open>deque(maxlen=100).append\<close>: the window is kept oldest first; once it holds
  \<open>maxlen\<close> items an append drops items from the left end.
\<close>

definition deque_append :: "nat \<Rightarrow> 'a list \<Rightarrow> 'a \<Rightarrow> 'a list" where
  "deque_append maxlen xs x = (let ys = xs @ [x] in drop (length ys - maxlen) ys)"

definition window_maxlen :: nat where
  "window_maxlen = 100"

text \<open>
  \<open>PortStatistics.record_poll(device_name, success, response_time=0.0)\<close>; the first
  argument is the reading of \<open>datetime.now()\<close>. \<open>if device_name:\<close> is true for every
  non-empty string.
\<close>

definition record_poll ::
  "datetime \<Rightarrow> PortStatistics \<Rightarrow> string \<Rightarrow> bool \<Rightarrow> real \<Rightarrow> PortStatistics" where
  "record_poll now s device_name success response_time =
     (let s1 = s\<lparr>total_polls := total_polls s + 1\<rparr>;
          s2 =
            (if device_name \<noteq> [] then
               (let d = device_stat_of s1 device_name;
                    d1 = d\<lparr>ds_total_polls := ds_total_polls d + 1\<rparr>
                in if success then
                     s1\<lparr>successful_polls := successful_polls s1 + 1,
                        device_stats := (device_stats s1)(device_name \<mapsto>
                          d1\<lparr>ds_successful_polls := ds_successful_polls d1 + 1,
                             ds_last_response_time := response_time\<rparr>),
                        last_success := Some now,
                        connected_devices := finsert device_name (connected_devices s1)\<rparr>
                   else
                     s1\<lparr>failed_polls := failed_polls s1 + 1,
                        device_stats := (device_stats s1)(device_name \<mapsto>
                          d1\<lparr>ds_failed_polls := ds_failed_polls d1 + 1\<rparr>),
                        last_error := Some now,
                        error_count := error_count s1 + 1\<rparr>)
             else s1)
      in if response_time > 0 then
           s2\<lparr>response_times := deque_append window_maxlen (response_times s2) response_time\<rparr>
         else s2)"

text \<open>One call of \<open>record_poll\<close> as the runner makes it, and a session of such calls.\<close>

record poll_call =
  call_now :: datetime
  call_device :: string
  call_success :: bool
  call_response_time :: real

definition record_call :: "PortStatistics \<Rightarrow> poll_call \<Rightarrow> PortStatistics" where
  "record_call s c =
     record_poll (call_now c) s (call_device c) (call_success c) (call_response_time c)"

definition record_polls :: "PortStatistics \<Rightarrow> poll_call list \<Rightarrow> PortStatistics" where
  "record_polls s cs = foldl record_call s cs"

text \<open>The dictionary returned by \<open>PortStatistics.get_stats\<close>.\<close>

record stats_dict =
  st_port_name :: string
  st_total_polls :: int
  st_successful_polls :: int
  st_failed_polls :: int
  st_success_rate :: real
  st_avg_response_time_ms :: real
  st_last_success :: "datetime option"
  st_last_error :: "datetime option"
  st_error_count :: int
  st_connected_devices :: nat
  st_device_stats :: "string \<rightharpoonup> device_stat"

definition avg_response_time :: "PortStatistics \<Rightarrow> real" where
  "avg_response_time s =
     (if response_times s \<noteq> [] then
        sum_list (response_times s) / real (length (response_times s))
      else 0)"

definition get_stats :: "PortStatistics \<Rightarrow> stats_dict" where
  "get_stats s =
     (let avg = avg_response_time s;
          success_rate =
            (if total_polls s > 0 then
               (real_of_int (successful_polls s) / real_of_int (total_polls s)) * 100
             else 0)
      in \<lparr> st_port_name = stat_port_name s,
           st_total_polls = total_polls s,
           st_successful_polls = successful_polls s,
           st_failed_polls = failed_polls s,
           st_success_rate = success_rate,
           st_avg_response_time_ms = avg * 1000,
           st_last_success = last_success s,
           st_last_error = last_error s,
           st_error_count = error_count s,
           st_connected_devices = fcard (connected_devices s),
           st_device_stats = device_stats s \<rparr>)"

text \<open>
  \<open>PortManager.get_port_status\<close>. The result is the dictionary of \<open>get_stats\<close> with a
  \<open>status\<close> entry, or the \<open>unknown\<close> answer for a port that has no statistics.
  \<open>successful_polls / 2\<close> is Python's true division.
\<close>

datatype port_status_view = PortNotFound | PortView PortStatus stats_dict

definition status_of_stats :: "stats_dict \<Rightarrow> PortStatus" where
  "status_of_stats stats =
     (if st_error_count stats > 10 \<and> st_successful_polls stats = 0 then ERROR
      else if real_of_int (st_error_count stats) > real_of_int (st_successful_polls stats) / 2
        then ERROR
      else if st_connected_devices stats = 0 then DISCONNECTED
      else RUNNING)"

definition get_port_status :: "(string \<rightharpoonup> PortStatistics) \<Rightarrow> string \<Rightarrow> port_status_view" where
  "get_port_status port_stats name =
     (case port_stats name of
        None \<Rightarrow> PortNotFound
      | Some s \<Rightarrow> (let stats = get_stats s in PortView (status_of_stats stats) stats))"

text \<open>
  The derived status in the words of the specification, read off the recorder's state.
\<close>

definition derived_status :: "PortStatistics \<Rightarrow> PortStatus" where
  "derived_status s =
     (if (error_count s > 10 \<and> successful_polls s = 0)
         \<or> real_of_int (error_count s) > real_of_int (successful_polls s) / 2 then ERROR
      else if connected_devices s = {||} then DISCONNECTED
      else RUNNING)"

text \<open>The window invariant: every stored latency is strictly positive.\<close>

definition window_positive :: "PortStatistics \<Rightarrow> bool" where
  "window_positive s = list_all (\<lambda>t. 0 < t) (response_times s)"

section \<open>Block coalescer (port_manager.py)\<close>

text \<open>
  \<open>PortManager.group_registers_by_type\<close>: a dictionary from the register type to the
  registers of that type, in order of first appearance (Python dictionaries keep insertion
  order), each list in the order of the input.
\<close>

fun grouped_append ::
  "(RegisterType \<times> RegisterConfig list) list \<Rightarrow> RegisterConfig \<Rightarrow>
   (RegisterType \<times> RegisterConfig list) list" where
  "grouped_append [] reg = [(reg_type reg, [reg])]"
| "grouped_append ((k, regs) # grouped) reg =
     (if k = reg_type reg then (k, regs @ [reg]) # grouped
      else (k, regs) # grouped_append grouped reg)"

definition group_registers_by_type ::
  "RegisterConfig list \<Rightarrow> (RegisterType \<times> RegisterConfig list) list" where
  "group_registers_by_type regs = foldl grouped_append [] regs"

text \<open>
  The loop of \<open>PortManager.group_registers_into_blocks\<close> over \<open>sorted_regs[1:]\<close>:
  \<open>prev\<close> is \<open>sorted_regs[i-1].address\<close>, and \<open>blocks\<close> grows at its end.
\<close>

fun blocks_loop ::
  "RegisterConfig list \<Rightarrow> int \<Rightarrow> int \<Rightarrow> int \<Rightarrow> (int \<times> int) list \<Rightarrow> (int \<times> int) list" where
  "blocks_loop [] prev start_addr count blocks = blocks @ [(start_addr, count)]"
| "blocks_loop (r # rs) prev start_addr count blocks =
     (if address r = prev + 1 then blocks_loop rs (address r) start_addr (count + 1) blocks
      else blocks_loop rs (address r) (address r) 1 (blocks @ [(start_addr, count)]))"

text \<open>\<open>sorted(registers, key=lambda x: x.address)\<close> is a stable sort, as \<open>sort_key\<close> is.\<close>

definition group_registers_into_blocks :: "RegisterConfig list \<Rightarrow> (int \<times> int) list" where
  "group_registers_into_blocks regs =
     (case sort_key address regs of
        [] \<Rightarrow> []
      | r # rs \<Rightarrow> blocks_loop rs (address r) (address r) 1 [])"

text \<open>
  The address span of a register: \<open>process_register_block\<close> takes two words for
  \<open>int32\<close>, \<open>uint32\<close> and \<open>float\<close> and one word otherwise.
\<close>

definition register_count :: "RegisterConfig \<Rightarrow> int" where
  "register_count r =
     (if data_type_value (data_type r) \<in> set [''int32'', ''uint32'', ''float''] then 2 else 1)"

text \<open>A block \<open>(start, count)\<close> covers the addresses \<open>start \<le> a < start + count\<close>.\<close>

definition block_covers :: "(int \<times> int) \<Rightarrow> int \<Rightarrow> bool" where
  "block_covers b a = (fst b \<le> a \<and> a < fst b + snd b)"

definition span_in_block :: "RegisterConfig \<Rightarrow> (int \<times> int) \<Rightarrow> bool" where
  "span_in_block r b = (fst b \<le> address r \<and> address r + register_count r \<le> fst b + snd b)"

text \<open>Runs listed in ascending order that neither overlap nor touch.\<close>

fun separated :: "(int \<times> int) list \<Rightarrow> bool" where
  "separated [] = True"
| "separated [b] = True"
| "separated (b # c # bs) = (fst b + snd b < fst c \<and> separated (c # bs))"

text \<open>
  The coalescing algorithm in the words of the specification: every register becomes the
  span \<open>(start, end)\<close> of the addresses it occupies, \<open>end\<close> exclusive; the spans are
  sorted by start; a span whose start is at most the end of the current run extends the
  run, any other closes it; a run is emitted as \<open>(start, end - start)\<close>.
\<close>

definition register_span :: "RegisterConfig \<Rightarrow> int \<times> int" where
  "register_span r = (address r, address r + register_count r)"

fun spec_walk :: "(int \<times> int) list \<Rightarrow> int \<Rightarrow> int \<Rightarrow> (int \<times> int) list" where
  "spec_walk [] run_start run_end = [(run_start, run_end - run_start)]"
| "spec_walk ((s, e) # spans) run_start run_end =
     (if s \<le> run_end then spec_walk spans run_start (max run_end e)
      else (run_start, run_end - run_start) # spec_walk spans s e)"

definition spec_blocks :: "RegisterConfig list \<Rightarrow> (int \<times> int) list" where
  "spec_blocks regs =
     (case sort_key fst (map register_span regs) of
        [] \<Rightarrow> []
      | (s, e) # spans \<Rightarrow> spec_walk spans s e)"

section \<open>Numeric decoder (utils.py, class DataConverter)\<close>

definition int16_to_signed :: "int \<Rightarrow> string \<Rightarrow> int" where
  "int16_to_signed value0 byteorder =
     (let value = (if byteorder = ''little''
                   then push_bit 8 (value0 AND 0xFF) OR (drop_bit 8 value0 AND 0xFF)
                   else value0)
      in if value \<ge> 0x8000 then value - 0x10000 else value)"

definition int32_from_registers :: "int \<Rightarrow> int \<Rightarrow> string \<Rightarrow> string \<Rightarrow> int" where
  "int32_from_registers high0 low0 byteorder wordorder =
     (let (high1, low1) = (if wordorder = ''little'' then (low0, high0) else (high0, low0));
          (high, low) =
            (if byteorder = ''little''
             then (push_bit 8 (high1 AND 0xFF) OR (drop_bit 8 high1 AND 0xFF),
                   push_bit 8 (low1 AND 0xFF) OR (drop_bit 8 low1 AND 0xFF))
             else (high1, low1));
          value = push_bit 16 high OR low
      in if value \<ge> 0x80000000 then value - 0x100000000 else value)"

definition uint32_from_registers :: "int \<Rightarrow> int \<Rightarrow> string \<Rightarrow> string \<Rightarrow> int" where
  "uint32_from_registers high0 low0 byteorder wordorder =
     (let (high1, low1) = (if wordorder = ''little'' then (low0, high0) else (high0, low0));
          (high, low) =
            (if byteorder = ''little''
             then (push_bit 8 (high1 AND 0xFF) OR (drop_bit 8 high1 AND 0xFF),
                   push_bit 8 (low1 AND 0xFF) OR (drop_bit 8 low1 AND 0xFF))
             else (high1, low1))
      in push_bit 16 high OR low)"

text \<open>
  Decoded values. The floating-point arithmetic of the decoder is not interpreted:
  \<open>PyFloat32 high low\<close> stands for \<open>struct.unpack('>f', struct.pack('>HH', high, low))\<close>,
  and \<open>Scaled v scale offset precision\<close> for the Python number \<open>v * scale + offset\<close>,
  rounded to \<open>precision\<close> digits when it is a float and \<open>precision >= 0\<close>.
\<close>

datatype pyvalue = PyInt int | PyBool bool | PyFloat32 int int

datatype decoded = Scaled pyvalue real real int

text \<open>
  \<open>float_from_registers\<close>: \<open>struct.pack('>HH', ...)\<close> raises \<open>struct.error\<close> for a word
  outside \<open>0..65535\<close>.
\<close>

definition float_from_registers :: "int \<Rightarrow> int \<Rightarrow> string \<Rightarrow> string \<Rightarrow> error + pyvalue" where
  "float_from_registers high0 low0 byteorder wordorder =
     (let (high1, low1) = (if wordorder = ''little'' then (low0, high0) else (high0, low0));
          (high, low) =
            (if byteorder = ''little''
             then (push_bit 8 (high1 AND 0xFF) OR (drop_bit 8 high1 AND 0xFF),
                   push_bit 8 (low1 AND 0xFF) OR (drop_bit 8 low1 AND 0xFF))
             else (high1, low1))
      in if 0 \<le> high \<and> high \<le> 0xFFFF \<and> 0 \<le> low \<and> low \<le> 0xFFFF
         then Inr (PyFloat32 high low) else Inl StructError)"

text \<open>
  \<open>convert_value\<close>: the single-word path. Every value it builds is an \<open>int\<close>, a
  \<open>bool\<close> (a subclass of \<open>int\<close>) or a \<open>float\<close>, so the scaling branch is always taken.
  The function has no \<open>raise\<close>; its result is a sum so that it can be compared with the
  multi-word path.
\<close>

definition convert_value ::
  "int \<Rightarrow> string \<Rightarrow> real \<Rightarrow> real \<Rightarrow> int \<Rightarrow> string \<Rightarrow> string \<Rightarrow> error + decoded" where
  "convert_value raw_value dtype scale offset precision byteorder wordorder =
     (let value =
            (if dtype = ''int16'' then PyInt (int16_to_signed raw_value byteorder)
             else if dtype = ''uint16'' then
               PyInt (if byteorder = ''little''
                      then push_bit 8 (raw_value AND 0xFF) OR (drop_bit 8 raw_value AND 0xFF)
                      else raw_value)
             else if dtype = ''bool'' then PyBool (raw_value \<noteq> 0)
             else PyInt raw_value)
      in Inr (Scaled value scale offset precision))"

text \<open>\<open>convert_from_registers\<close>: the multi-word path.\<close>

definition convert_from_registers ::
  "int list \<Rightarrow> string \<Rightarrow> string \<Rightarrow> string \<Rightarrow> real \<Rightarrow> real \<Rightarrow> int \<Rightarrow> error + decoded" where
  "convert_from_registers regs dtype byteorder wordorder scale offset precision =
     (case regs of
        [] \<Rightarrow> Inl ValueError
      | r0 # rest \<Rightarrow>
          if dtype \<in> set [''int16'', ''uint16'', ''bool''] then
            convert_value r0 dtype scale offset precision byteorder wordorder
          else if dtype \<in> set [''int32'', ''uint32'', ''float''] then
            (case rest of
               [] \<Rightarrow> Inl ValueError
             | r1 # _ \<Rightarrow>
                 if dtype = ''int32'' then
                   Inr (Scaled (PyInt (int32_from_registers r0 r1 byteorder wordorder))
                          scale offset precision)
                 else if dtype = ''uint32'' then
                   Inr (Scaled (PyInt (uint32_from_registers r0 r1 byteorder wordorder))
                          scale offset precision)
                 else
                   (case float_from_registers r0 r1 byteorder wordorder of
                      Inl e \<Rightarrow> Inl e
                    | Inr v \<Rightarrow> Inr (Scaled v scale offset precision)))
          else Inl ValueError)"

text \<open>\<open>DataConverter.swap_bytes_16\<close>, the expression the decoders write out in place.\<close>

definition swap_bytes_16 :: "int \<Rightarrow> int" where
  "swap_bytes_16 value0 = push_bit 8 (value0 AND 0xFF) OR (drop_bit 8 value0 AND 0xFF)"

text \<open>A register word as Modbus delivers it.\<close>

definition word16 :: "int \<Rightarrow> bool" where
  "word16 w = (0 \<le> w \<and> w \<le> 65535)"

text \<open>
  The 32-bit decoding in the words of the specification: swap the words for little word
  order, swap the bytes of each word for little byte order, compose, reinterpret.
\<close>

datatype endianness = Big | Little

fun order_name :: "endianness \<Rightarrow> string" where
  "order_name Big = ''big''"
| "order_name Little = ''little''"

definition byte_swap :: "int \<Rightarrow> int" where
  "byte_swap w = (w mod 256) * 256 + w div 256"

definition ordered_words :: "int \<Rightarrow> int \<Rightarrow> endianness \<Rightarrow> endianness \<Rightarrow> int \<times> int" where
  "ordered_words w0 w1 byte_order word_order =
     (let (a, b) = (case word_order of Little \<Rightarrow> (w1, w0) | Big \<Rightarrow> (w0, w1))
      in case byte_order of Little \<Rightarrow> (byte_swap a, byte_swap b) | Big \<Rightarrow> (a, b))"

definition spec_uint32 :: "int \<Rightarrow> int \<Rightarrow> endianness \<Rightarrow> endianness \<Rightarrow> int" where
  "spec_uint32 w0 w1 byte_order word_order =
     (case ordered_words w0 w1 byte_order word_order of (high, low) \<Rightarrow> high * 2 ^ 16 + low)"

definition spec_int32 :: "int \<Rightarrow> int \<Rightarrow> endianness \<Rightarrow> endianness \<Rightarrow> int" where
  "spec_int32 w0 w1 byte_order word_order =
     (let v = spec_uint32 w0 w1 byte_order word_order
      in if v \<ge> 2 ^ 31 then v - 2 ^ 32 else v)"

text \<open>
  \<open>register_to_bits\<close> and \<open>register_bits_to_bytes\<close>. \<open>bin_digits n\<close> is
  \<open>format(n, 'b')\<close> for \<open>n \<ge> 0\<close>; \<open>format_08b\<close> is \<open>format(n, '08b')\<close>, which pads
  with zeros to eight characters, after the sign for a negative number.
\<close>

fun bin_digits :: "nat \<Rightarrow> string" where
  "bin_digits n =
     (if n < 2 then [if n = 0 then CHR ''0'' else CHR ''1'']
      else bin_digits (n div 2) @ [if n mod 2 = 0 then CHR ''0'' else CHR ''1''])"

declare bin_digits.simps [simp del]

definition zero_pad :: "nat \<Rightarrow> string \<Rightarrow> string" where
  "zero_pad width ds = replicate (width - length ds) (CHR ''0'') @ ds"

definition format_08b :: "int \<Rightarrow> string" where
  "format_08b n =
     (if n < 0 then CHR ''-'' # zero_pad 7 (bin_digits (nat (- n)))
      else zero_pad 8 (bin_digits (nat n)))"

text \<open>
  \<open>int(s, 2)\<close> on a string of binary digits; any other string is a \<open>ValueError\<close> here
  (Python also reads a sign, a \<open>0b\<close> prefix, underscores and surrounding blanks, which
  \<open>format_08b\<close> never produces for a byte).
\<close>

fun bit_of_char :: "char \<Rightarrow> int option" where
  "bit_of_char c = (if c = CHR ''0'' then Some 0 else if c = CHR ''1'' then Some 1 else None)"

fun parse_bits :: "int \<Rightarrow> string \<Rightarrow> int option" where
  "parse_bits acc [] = Some acc"
| "parse_bits acc (c # cs) =
     (case bit_of_char c of None \<Rightarrow> None | Some b \<Rightarrow> parse_bits (2 * acc + b) cs)"

definition int_base2 :: "string \<Rightarrow> error + int" where
  "int_base2 s =
     (if s = [] then Inl ValueError
      else case parse_bits 0 s of None \<Rightarrow> Inl ValueError | Some n \<Rightarrow> Inr n)"

definition register_to_bits :: "int \<Rightarrow> string \<Rightarrow> error + string" where
  "register_to_bits register_value byteorder =
     (if \<not> (0 \<le> register_value \<and> register_value \<le> 0xFFFF) then Inl ValueError
      else if byteorder = ''big'' then
        Inr (format_08b (drop_bit 8 register_value AND 0xFF) @ format_08b (register_value AND 0xFF))
      else if byteorder = ''little'' then
        Inr (format_08b (register_value AND 0xFF) @ format_08b (drop_bit 8 register_value AND 0xFF))
      else Inl ValueError)"

definition register_bits_to_bytes :: "string \<Rightarrow> string \<Rightarrow> error + int" where
  "register_bits_to_bytes bits_str byteorder =
     (if length bits_str \<noteq> 16 then Inl ValueError
      else
        (case int_base2 (take 8 bits_str) of
           Inl e \<Rightarrow> Inl e
         | Inr byte1 \<Rightarrow>
             (case int_base2 (drop 8 bits_str) of
                Inl e \<Rightarrow> Inl e
              | Inr byte2 \<Rightarrow>
                  if byteorder = ''big'' then Inr (push_bit 8 byte1 OR byte2)
                  else if byteorder = ''little'' then Inr (push_bit 8 byte2 OR byte1)
                  else Inl ValueError)))"

section \<open>Port runner (port_manager.py)\<close>

text \<open>
  \<open>PortManager.adjust_polling_interval\<close>. Times are seconds, Python floats read as
  reals. The function returns at once for a port without devices; \<open>min\<close> over no enabled
  device raises \<open>ValueError\<close>; otherwise it sleeps or logs the warning.
\<close>

datatype interval_action = NoDevices | Sleep real | CycleWarning real real

fun py_min :: "real list \<Rightarrow> error + real" where
  "py_min [] = Inl ValueError"
| "py_min (x # xs) = Inr (foldl (\<lambda>m y. if y < m then y else m) x xs)"

definition estimated_device_time :: real where
  "estimated_device_time = 5 / 100"

definition adjust_polling_interval :: "PortConfig \<Rightarrow> error + interval_action" where
  "adjust_polling_interval port_config =
     (if devices port_config = [] then Inr NoDevices
      else
        (case py_min (map poll_interval (filter dev_enabled (devices port_config))) of
           Inl e \<Rightarrow> Inl e
         | Inr min_interval \<Rightarrow>
             (let cycle_time = real (length (devices port_config)) * estimated_device_time
              in if cycle_time < min_interval then Inr (Sleep (min_interval - cycle_time))
                 else Inr (CycleWarning cycle_time min_interval))))"

fun sleep_time :: "interval_action \<Rightarrow> real" where
  "sleep_time (Sleep d) = d"
| "sleep_time NoDevices = 0"
| "sleep_time (CycleWarning c m) = 0"

fun warns :: "interval_action \<Rightarrow> bool" where
  "warns (CycleWarning c m) = True"
| "warns a = False"

text \<open>
  The interval rule in the words of the specification, for a cycle that took \<open>elapsed\<close>
  seconds.
\<close>

definition min_device_poll_interval :: "PortConfig \<Rightarrow> real" where
  "min_device_poll_interval port_config =
     Min (set (map poll_interval (filter dev_enabled (devices port_config))))"

definition spec_sleep :: "real \<Rightarrow> PortConfig \<Rightarrow> real" where
  "spec_sleep elapsed port_config = max 0 (min_device_poll_interval port_config - elapsed)"

text \<open>
  The \<open>while\<close> loop of \<open>PortManager.poll_port\<close>, as a function on the state the loop
  carries: the local \<open>retry_count\<close>, the statistics of the port
  (\<open>self.port_stats[port_config.name]\<close>), and the list of what the runner has done so far.

  What happens in one iteration is given from outside. Either the connection cannot be made
  (\<open>create_modbus_client\<close> returns nothing or \<open>connect\<close> fails: the counter is raised in
  the \<open>except\<close> branch), or it is made and the devices are polled, or the coroutine is
  cancelled while connecting or while polling. For a cycle the outside gives the result of
  \<open>poll_device\<close> for the enabled devices, in order: data with the clock reading and the
  poll time in seconds, no data, or an exception inside the per-device \<open>try\<close>; a list
  shorter than the enabled devices stands for the \<open>break\<close> on \<open>self.running\<close>. The list
  of iterations ends when \<open>self.running\<close> is found false at the head of the loop.
\<close>

datatype device_result = PollData datetime real | PollNone | PollRaises datetime

datatype iteration =
  ConnectFails | Connected "device_result list" | CancelledConnecting
  | CancelledPolling "device_result list"

datatype runner_event = ConnectFailed | RetrySleep real | PollCycle | CycleFailed | RetriesExceeded

record runner =
  retry_count :: int
  run_stats :: PortStatistics
  events :: "runner_event list"

text \<open>
  The body of the \<open>for\<close> loop for one enabled device: data is recorded as a successful
  poll with its poll time, an exception as a failed poll with the default response time,
  and nothing is recorded when \<open>poll_device\<close> returns \<open>None\<close>.
\<close>

fun record_device_result :: "PortStatistics \<Rightarrow> DeviceConfig \<times> device_result \<Rightarrow> PortStatistics" where
  "record_device_result s (d, PollData now t) = record_poll now s (dev_name d) True t"
| "record_device_result s (d, PollNone) = s"
| "record_device_result s (d, PollRaises now) = record_poll now s (dev_name d) False 0"

definition poll_devices :: "PortConfig \<Rightarrow> PortStatistics \<Rightarrow> device_result list \<Rightarrow> PortStatistics" where
  "poll_devices port_config s results =
     foldl record_device_result s (zip (filter dev_enabled (devices port_config)) results)"

fun is_success :: "device_result \<Rightarrow> bool" where
  "is_success (PollData now t) = True"
| "is_success PollNone = False"
| "is_success (PollRaises now) = False"

text \<open>
  Both \<open>except\<close> branches of the loop: \<open>retry_count += 1\<close>, then the sleep of
  \<open>retry_delay\<close> if the counter is still below \<open>max_retries\<close>.
\<close>

definition count_failure :: "PortConfig \<Rightarrow> runner \<Rightarrow> runner" where
  "count_failure port_config st =
     (let rc = retry_count st + 1
      in st\<lparr>retry_count := rc,
            events := events st @
              (if rc < max_retries port_config then [RetrySleep (retry_delay port_config)]
               else [])\<rparr>)"

text \<open>
  An iteration whose connection is made: the counter is set to zero, the devices are
  polled, and \<open>adjust_polling_interval\<close> ends the cycle; when it raises, the iteration
  leaves through the \<open>except Exception\<close> branch.
\<close>

definition start_cycle :: "PortConfig \<Rightarrow> runner \<Rightarrow> device_result list \<Rightarrow> runner" where
  "start_cycle port_config st results =
     st\<lparr>retry_count := 0,
        run_stats := poll_devices port_config (run_stats st) results,
        events := events st @ [PollCycle]\<rparr>"

definition poll_cycle :: "PortConfig \<Rightarrow> runner \<Rightarrow> device_result list \<Rightarrow> runner" where
  "poll_cycle port_config st results =
     (let st1 = start_cycle port_config st results
      in case adjust_polling_interval port_config of
           Inl e \<Rightarrow> count_failure port_config (st1\<lparr>events := events st1 @ [CycleFailed]\<rparr>)
         | Inr a \<Rightarrow> st1)"

fun poll_port_loop :: "PortConfig \<Rightarrow> runner \<Rightarrow> iteration list \<Rightarrow> runner" where
  "poll_port_loop port_config st [] = st"
| "poll_port_loop port_config st (it # its) =
     (if retry_count st < max_retries port_config then
        (case it of
           ConnectFails \<Rightarrow>
             poll_port_loop port_config
               (count_failure port_config (st\<lparr>events := events st @ [ConnectFailed]\<rparr>)) its
         | Connected results \<Rightarrow> poll_port_loop port_config (poll_cycle port_config st results) its
         | CancelledConnecting \<Rightarrow> st
         | CancelledPolling results \<Rightarrow> start_cycle port_config st results)
      else st)"

text \<open>The code after the loop: the error log when the counter has reached \<open>max_retries\<close>.\<close>

definition after_loop :: "PortConfig \<Rightarrow> runner \<Rightarrow> runner" where
  "after_loop port_config st =
     (if retry_count st \<ge> max_retries port_config
      then st\<lparr>events := events st @ [RetriesExceeded]\<rparr> else st)"

definition poll_port :: "PortConfig \<Rightarrow> PortStatistics \<Rightarrow> iteration list \<Rightarrow> runner" where
  "poll_port port_config s its =
     after_loop port_config
       (poll_port_loop port_config \<lparr>retry_count = 0, run_stats = s, events = []\<rparr> its)"

text \<open>
  \<open>k\<close> connection attempts that all fail, with a sleep of \<open>retry_delay\<close> between each two
  of them; and the same followed by the error log.
\<close>

definition attempts_trace :: "PortConfig \<Rightarrow> nat \<Rightarrow> runner_event list" where
  "attempts_trace port_config k =
     concat (replicate (k - 1) [ConnectFailed, RetrySleep (retry_delay port_config)])
       @ [ConnectFailed]"

definition failure_trace :: "PortConfig \<Rightarrow> nat \<Rightarrow> runner_event list" where
  "failure_trace port_config k = attempts_trace port_config k @ [RetriesExceeded]"

text \<open>
  The decorator \<open>async_retry\<close> (utils.py): \<open>func k\<close> is what the call of attempt \<open>k\<close>
  does, \<open>None\<close> when it raises one of the listed exceptions; \<open>retries\<close> is the
  decorator's \<open>max_retries\<close>. The result is the number of calls made, the sleeps,
  and the value returned (\<open>None\<close> when the decorator ends by a \<open>raise\<close>).
\<close>

fun async_retry_loop ::
  "int \<Rightarrow> real \<Rightarrow> (nat \<Rightarrow> 'a option) \<Rightarrow> nat \<Rightarrow> nat \<Rightarrow> nat \<times> real list \<times> 'a option" where
  "async_retry_loop retries delay func attempt 0 = (0, [], None)"
| "async_retry_loop retries delay func attempt (Suc remaining) =
     (case func attempt of
        Some v \<Rightarrow> (1, [], Some v)
      | None \<Rightarrow>
          (case async_retry_loop retries delay func (Suc attempt) remaining of
             (calls, sleeps, res) \<Rightarrow>
               (Suc calls,
                (if int attempt < retries - 1 then [delay] else []) @ sleeps, res)))"

definition async_retry ::
  "int \<Rightarrow> real \<Rightarrow> (nat \<Rightarrow> 'a option) \<Rightarrow> nat \<times> real list \<times> 'a option" where
  "async_retry retries delay func =
     async_retry_loop retries delay func 0 (nat retries)"

section \<open>Concrete configurations and sessions\<close>

text \<open>A session of two recorded polls, and a port with one enabled device.\<close>

definition demo_calls :: "poll_call list" where
  "demo_calls =
     [\<lparr>call_now = 1, call_device = ''dev1'', call_success = True, call_response_time = 1 / 50\<rparr>,
      \<lparr>call_now = 2, call_device = ''dev2'', call_success = False, call_response_time = 0\<rparr>]"

definition demo_port :: PortConfig where
  "demo_port =
     \<lparr> port_name = ''port1'', max_retries = 3, retry_delay = 5,
       devices = [\<lparr> dev_name = ''dev1'', dev_address = 1, poll_interval = 1,
                    dev_enabled = True, registers = [] \<rparr>] \<rparr>"

text \<open>
  The same port with its only device disabled, the same port with \<open>max_retries = 0\<close>, and
  five iterations in which the connection cannot be made.
\<close>

definition disabled_port :: PortConfig where
  "disabled_port =
     \<lparr> port_name = ''port1'', max_retries = 3, retry_delay = 5,
       devices = [\<lparr> dev_name = ''dev1'', dev_address = 1, poll_interval = 1,
                    dev_enabled = False, registers = [] \<rparr>] \<rparr>"

definition no_retry_port :: PortConfig where
  "no_retry_port =
     \<lparr> port_name = ''port1'', max_retries = 0, retry_delay = 5,
       devices = [\<lparr> dev_name = ''dev1'', dev_address = 1, poll_interval = 1,
                    dev_enabled = True, registers = [] \<rparr>] \<rparr>"

definition five_failures :: "iteration list" where
  "five_failures = [ConnectFails, ConnectFails, ConnectFails, ConnectFails, ConnectFails]"

text \<open>
  A holding register with the defaults of the \<open>RegisterConfig\<close> dataclass, and the
  registers of scenario S4 of the specification.
\<close>

definition holding_register :: "int \<Rightarrow> DataType \<Rightarrow> RegisterConfig" where
  "holding_register addr dt =
     \<lparr> reg_type = HOLDING, address = addr, reg_name = [], reg_scale = 1, reg_offset = 0,
       data_type = dt, reg_precision = 2, reg_byteorder = ''big'', reg_wordorder = ''big'' \<rparr>"

definition s4_registers :: "RegisterConfig list" where
  "s4_registers =
     [holding_register 10 INT16, holding_register 11 FLOAT, holding_register 13 INT16,
      holding_register 20 UINT16]"

section \<open>Properties of the statistics recorder\<close>

lemma record_poll_total: "total_polls (record_poll now s d ok rt) = total_polls s + 1"
  by (simp add: record_poll_def Let_def)

lemma record_poll_successful:
  "successful_polls (record_poll now s d ok rt) =
     successful_polls s + (if d \<noteq> [] \<and> ok then 1 else 0)"
  by (simp add: record_poll_def Let_def)

lemma record_poll_failed:
  "failed_polls (record_poll now s d ok rt) =
     failed_polls s + (if d \<noteq> [] \<and> \<not> ok then 1 else 0)"
  by (simp add: record_poll_def Let_def)

lemma record_poll_error_count:
  "error_count (record_poll now s d ok rt) =
     error_count s + (if d \<noteq> [] \<and> \<not> ok then 1 else 0)"
  by (simp add: record_poll_def Let_def)

lemma record_poll_response_times:
  "response_times (record_poll now s d ok rt) =
     (if rt > 0 then deque_append window_maxlen (response_times s) rt else response_times s)"
  by (simp add: record_poll_def Let_def)

lemma record_poll_connected:
  "connected_devices (record_poll now s d ok rt) =
     (if d \<noteq> [] \<and> ok then finsert d (connected_devices s) else connected_devices s)"
  by (simp add: record_poll_def Let_def)


lemma record_call_counters:
  "total_polls (record_call s c) = total_polls s + 1"
  "successful_polls s \<le> successful_polls (record_call s c)"
  "failed_polls s \<le> failed_polls (record_call s c)"
  "error_count s \<le> error_count (record_call s c)"
  by (simp_all add: record_call_def record_poll_total record_poll_successful
        record_poll_failed record_poll_error_count)

lemma record_polls_snoc: "record_polls s (cs @ [c]) = record_call (record_polls s cs) c"
  by (simp add: record_polls_def)

lemma record_polls_monotone:
  "total_polls s \<le> total_polls (record_polls s cs) \<and>
   successful_polls s \<le> successful_polls (record_polls s cs) \<and>
   failed_polls s \<le> failed_polls (record_polls s cs) \<and>
   error_count s \<le> error_count (record_polls s cs)"
proof (induction cs rule: rev_induct)
  case Nil
  show ?case by (simp add: record_polls_def)
next
  case (snoc c cs)
  have "total_polls (record_polls s cs) \<le> total_polls (record_call (record_polls s cs) c)"
    by (simp add: record_call_counters(1))
  with snoc record_call_counters(2-4)[of "record_polls s cs" c]
  show ?case unfolding record_polls_snoc by linarith
qed

lemma record_polls_sum_le:
  "successful_polls s + failed_polls s \<le> total_polls s \<Longrightarrow>
   successful_polls (record_polls s cs) + failed_polls (record_polls s cs)
     \<le> total_polls (record_polls s cs)"
proof (induction cs rule: rev_induct)
  case Nil
  then show ?case by (simp add: record_polls_def)
next
  case (snoc c cs)
  then show ?case
    by (simp add: record_polls_snoc record_call_def record_poll_total record_poll_successful
          record_poll_failed)
qed

lemma record_polls_sum_eq:
  "successful_polls s + failed_polls s = total_polls s \<Longrightarrow>
   list_all (\<lambda>c. call_device c \<noteq> []) cs \<Longrightarrow>
   successful_polls (record_polls s cs) + failed_polls (record_polls s cs)
     = total_polls (record_polls s cs)"
proof (induction cs rule: rev_induct)
  case Nil
  then show ?case by (simp add: record_polls_def)
next
  case (snoc c cs)
  then show ?case
    by (simp add: record_polls_snoc record_call_def record_poll_total record_poll_successful
          record_poll_failed)
qed

lemma init_counters:
  "successful_polls (init_statistics n) + failed_polls (init_statistics n)
     = total_polls (init_statistics n)"
  by (simp add: init_statistics_def)

text \<open>
  Claim C7, as stated, fails: a poll recorded under the empty device name raises
  \<open>total_polls\<close> and neither \<open>successful_polls\<close> nor \<open>failed_polls\<close>, because both
  are updated under \<open>if device_name:\<close>.
\<close>

theorem C7_empty_name_counterexample:
  "successful_polls (record_poll 0 (init_statistics ''port1'') [] True 0)
     + failed_polls (record_poll 0 (init_statistics ''port1'') [] True 0)
   \<noteq> total_polls (record_poll 0 (init_statistics ''port1'') [] True 0)"
  by (simp add: record_poll_total record_poll_successful record_poll_failed init_statistics_def)

text \<open>
  Claim C7, amended: over every sequence of \<open>record_poll\<close> calls each of the four
  counters is non-decreasing; in a session that starts from the fresh recorder
  \<open>successful_polls + failed_polls \<le> total_polls\<close> after every poll, with equality when
  every poll was recorded under a non-empty device name.
\<close>

theorem C7_counters:
  "total_polls s \<le> total_polls (record_polls s cs) \<and>
   successful_polls s \<le> successful_polls (record_polls s cs) \<and>
   failed_polls s \<le> failed_polls (record_polls s cs) \<and>
   error_count s \<le> error_count (record_polls s cs) \<and>
   successful_polls (record_polls (init_statistics name) cs)
     + failed_polls (record_polls (init_statistics name) cs)
     \<le> total_polls (record_polls (init_statistics name) cs) \<and>
   (list_all (\<lambda>c. call_device c \<noteq> []) cs \<longrightarrow>
      successful_polls (record_polls (init_statistics name) cs)
        + failed_polls (record_polls (init_statistics name) cs)
        = total_polls (record_polls (init_statistics name) cs))"
  using record_polls_monotone[of s cs] record_polls_sum_le[of "init_statistics name" cs]
    record_polls_sum_eq[of "init_statistics name" cs] init_counters[of name]
  by simp

theorem C7_counters_witness:
  "list_all (\<lambda>c. call_device c \<noteq> []) demo_calls \<and>
   total_polls (record_polls (init_statistics ''port1'') demo_calls) = 2 \<and>
   successful_polls (record_polls (init_statistics ''port1'') demo_calls)
     + failed_polls (record_polls (init_statistics ''port1'') demo_calls)
     = total_polls (record_polls (init_statistics ''port1'') demo_calls)"
proof -
  have h: "list_all (\<lambda>c. call_device c \<noteq> []) demo_calls"
    by (simp add: demo_calls_def)
  have t: "total_polls (record_polls (init_statistics ''port1'') demo_calls) = 2"
    by (simp add: demo_calls_def record_polls_def record_call_def record_poll_total
          init_statistics_def)
  from C7_counters[of "init_statistics ''port1''" demo_calls "''port1''"] h t
  show ?thesis by simp
qed

lemma window_positive_append:
  "list_all (\<lambda>t. 0 < t) xs \<Longrightarrow> 0 < (x::real) \<Longrightarrow> list_all (\<lambda>t. 0 < t) (deque_append n xs x)"
  unfolding deque_append_def Let_def list_all_iff
  by (auto dest: in_set_dropD)

lemma window_positive_record_poll:
  "window_positive s \<Longrightarrow> window_positive (record_poll now s device success rt)"
  by (simp add: window_positive_def record_poll_response_times window_positive_append)

lemma window_positive_session:
  "window_positive s \<Longrightarrow> window_positive (record_polls s cs)"
  by (induction cs rule: rev_induct)
     (simp_all add: record_polls_def record_call_def window_positive_record_poll)

text \<open>
  Claim C9: the window of the fresh recorder holds only strictly positive latencies,
  every \<open>record_poll\<close> call preserves that, so it holds after every session of calls;
  and a failed poll recorded with the default \<open>response_time\<close> of 0 leaves the window
  and \<open>avg_response_time_ms\<close> as they were.
\<close>

theorem C9_window:
  "window_positive (init_statistics name) \<and>
   (window_positive s \<longrightarrow> window_positive (record_poll now s device success rt)) \<and>
   window_positive (record_polls (init_statistics name) cs) \<and>
   response_times (record_poll now s device False 0) = response_times s \<and>
   st_avg_response_time_ms (get_stats (record_poll now s device False 0))
     = st_avg_response_time_ms (get_stats s)"
proof -
  have i: "window_positive (init_statistics name)"
    by (simp add: window_positive_def init_statistics_def)
  show ?thesis
    using i window_positive_session[OF i, of cs]
    by (simp add: window_positive_record_poll record_poll_response_times get_stats_def
          avg_response_time_def Let_def)
qed

theorem C9_window_witness:
  "window_positive (record_polls (init_statistics ''port1'') demo_calls) \<and>
   response_times (record_polls (init_statistics ''port1'') demo_calls) = [1 / 50] \<and>
   window_positive
     (record_poll 3 (record_polls (init_statistics ''port1'') demo_calls) ''dev1'' True (1 / 40))"
proof -
  have w: "response_times (record_polls (init_statistics ''port1'') demo_calls) = [1 / 50]"
    by (simp add: demo_calls_def record_polls_def record_call_def record_poll_response_times
          init_statistics_def deque_append_def window_maxlen_def)
  then have p: "window_positive (record_polls (init_statistics ''port1'') demo_calls)"
    by (simp add: window_positive_def)
  from C9_window[of "''port1''" "record_polls (init_statistics ''port1'') demo_calls"
      3 "''dev1''" True "1 / 40" "[]"] p w
  show ?thesis by simp
qed

text \<open>
  Claim C6: the status that \<open>get_port_status\<close> derives from the dictionary of
  \<open>get_stats\<close> is \<open>ERROR\<close> if \<open>error_count > 10\<close> and \<open>successful_polls = 0\<close>, or if
  \<open>error_count > successful_polls / 2\<close>; else \<open>DISCONNECTED\<close> if no device is connected;
  else \<open>RUNNING\<close>. This holds for every state of the recorder, reachable or not.
\<close>

theorem C6_status:
  "port_stats name = Some s \<Longrightarrow>
   get_port_status port_stats name = PortView (derived_status s) (get_stats s)"
  by (simp add: get_port_status_def Let_def status_of_stats_def derived_status_def get_stats_def)

theorem C6_status_witness:
  "[''port1'' \<mapsto> init_statistics ''port1''] ''port1'' = Some (init_statistics ''port1'') \<and>
   get_port_status [''port1'' \<mapsto> init_statistics ''port1''] ''port1''
     = PortView DISCONNECTED (get_stats (init_statistics ''port1''))"
proof -
  have h: "[''port1'' \<mapsto> init_statistics ''port1''] ''port1'' = Some (init_statistics ''port1'')"
    by simp
  have d: "derived_status (init_statistics ''port1'') = DISCONNECTED"
    by (simp add: derived_status_def init_statistics_def)
  from C6_status[of "[''port1'' \<mapsto> init_statistics ''port1'']" "''port1''"
      "init_statistics ''port1''"] h d
  show ?thesis by simp
qed

section \<open>Properties of the numeric decoder\<close>

lemma and_255: "(w::int) AND 0xFF = w mod 256"
proof -
  have "w AND mask 8 = take_bit 8 w" by (simp add: take_bit_eq_mask)
  then show ?thesis by (simp add: take_bit_eq_mod mask_eq_exp_minus_1)
qed

lemma push_bit_or_add:
  assumes "0 \<le> l" "l < 2 ^ n"
  shows "push_bit n (h::int) OR l = h * 2 ^ n + l"
proof -
  have l: "take_bit n l = l" using assms by (simp add: take_bit_int_eq_self)
  have "push_bit n h + take_bit n l = push_bit n h OR take_bit n l"
    by (rule disjunctive_add) (auto simp: bit_push_bit_iff bit_take_bit_iff)
  then show ?thesis by (simp add: l push_bit_eq_mult)
qed

lemma swap_bytes_eq:
  assumes "0 \<le> w" "w \<le> 65535"
  shows "push_bit 8 (w AND 0xFF) OR (drop_bit 8 w AND 0xFF) = byte_swap (w::int)"
proof -
  have d: "drop_bit 8 w = w div 256" by (simp add: drop_bit_eq_div)
  have r: "0 \<le> w div 256" "w div 256 < 256" using assms by auto
  then have m: "(w div 256) mod 256 = w div 256" by simp
  have "push_bit 8 (w mod 256) OR (w div 256) = (w mod 256) * 2 ^ 8 + w div 256"
    using r by (intro push_bit_or_add) auto
  then show ?thesis by (simp add: and_255 d m byte_swap_def)
qed

lemma byte_swap_range:
  assumes "0 \<le> w" "w \<le> 65535"
  shows "0 \<le> byte_swap w \<and> byte_swap w \<le> 65535"
proof -
  have "0 \<le> w mod 256" "w mod 256 < 256" "0 \<le> w div 256" "w div 256 < 256"
    using assms by auto
  then show ?thesis unfolding byte_swap_def by linarith
qed

lemma ordered_words_range:
  assumes "word16 w0" "word16 w1"
  shows "word16 (fst (ordered_words w0 w1 bo wo)) \<and> word16 (snd (ordered_words w0 w1 bo wo))"
  using assms byte_swap_range[of w0] byte_swap_range[of w1]
  by (cases bo; cases wo) (simp_all add: ordered_words_def word16_def)

lemma uint32_from_registers_swap:
  "uint32_from_registers high0 low0 b w =
     (let (high1, low1) = (if w = ''little'' then (low0, high0) else (high0, low0));
          (high, low) = (if b = ''little'' then (swap_bytes_16 high1, swap_bytes_16 low1)
                         else (high1, low1))
      in push_bit 16 high OR low)"
  by (simp only: uint32_from_registers_def swap_bytes_16_def)

lemma uint32_refines:
  assumes "word16 w0" "word16 w1"
  shows "uint32_from_registers w0 w1 (order_name bo) (order_name wo) = spec_uint32 w0 w1 bo wo"
proof -
  have s0: "swap_bytes_16 w0 = byte_swap w0" and s1: "swap_bytes_16 w1 = byte_swap w1"
    using assms unfolding word16_def swap_bytes_16_def by (intro swap_bytes_eq; simp)+
  have code: "uint32_from_registers w0 w1 (order_name bo) (order_name wo) =
      push_bit 16 (fst (ordered_words w0 w1 bo wo)) OR snd (ordered_words w0 w1 bo wo)"
    by (cases bo; cases wo) (simp_all add: uint32_from_registers_swap ordered_words_def s0 s1)
  have "0 \<le> snd (ordered_words w0 w1 bo wo)" "snd (ordered_words w0 w1 bo wo) < 2 ^ 16"
    using ordered_words_range[OF assms, of bo wo] by (simp_all add: word16_def)
  then have "push_bit 16 (fst (ordered_words w0 w1 bo wo)) OR snd (ordered_words w0 w1 bo wo)
      = fst (ordered_words w0 w1 bo wo) * 2 ^ 16 + snd (ordered_words w0 w1 bo wo)"
    by (rule push_bit_or_add)
  with code show ?thesis by (simp add: spec_uint32_def split_beta)
qed

lemma int32_via_uint32:
  "int32_from_registers h l b w =
     (let v = uint32_from_registers h l b w in if v \<ge> 0x80000000 then v - 0x100000000 else v)"
  by (simp add: int32_from_registers_def uint32_from_registers_def Let_def split_beta)

lemma spec_uint32_range:
  assumes "word16 w0" "word16 w1"
  shows "0 \<le> spec_uint32 w0 w1 bo wo \<and> spec_uint32 w0 w1 bo wo < 2 ^ 32"
proof -
  obtain h l where hl: "ordered_words w0 w1 bo wo = (h, l)" by (cases "ordered_words w0 w1 bo wo")
  with ordered_words_range[OF assms, of bo wo]
  have "0 \<le> h" "h \<le> 65535" "0 \<le> l" "l \<le> 65535" by (simp_all add: word16_def)
  then show ?thesis by (simp add: spec_uint32_def hl)
qed

lemma spec_int32_twos_complement:
  assumes "word16 w0" "word16 w1"
  shows "- (2 ^ 31) \<le> spec_int32 w0 w1 bo wo \<and> spec_int32 w0 w1 bo wo < 2 ^ 31 \<and>
         spec_int32 w0 w1 bo wo mod 2 ^ 32 = spec_uint32 w0 w1 bo wo"
proof -
  define u where "u = spec_uint32 w0 w1 bo wo"
  have r: "0 \<le> u" "u < 2 ^ 32" using spec_uint32_range[OF assms, of bo wo] by (simp_all add: u_def)
  have "(u - 2 ^ 32) mod 2 ^ 32 = u mod 2 ^ 32" by (simp add: mod_diff_right_eq[symmetric])
  moreover have "u mod 2 ^ 32 = u" using r by simp
  ultimately show ?thesis using r unfolding spec_int32_def Let_def u_def[symmetric] by auto
qed

text \<open>
  Claim C3: for words \<open>w0\<close>, \<open>w1\<close> in \<open>0..65535\<close> and every byte and word order,
  \<open>uint32_from_registers\<close> and \<open>int32_from_registers\<close> compute what the specification
  describes: the words swapped for little word order, each word byte-swapped for little
  byte order, composed as \<open>high * 2^16 + low\<close>, and for \<open>int32\<close> values from \<open>2^31\<close> on
  lowered by \<open>2^32\<close>. The signed result lies in \<open>-2^31 ..< 2^31\<close> and agrees with the
  unsigned one modulo \<open>2^32\<close>, which is the two's-complement reading of the same pattern.
\<close>

theorem C3_decode32:
  assumes "0 \<le> w0 \<and> w0 \<le> 65535" "0 \<le> w1 \<and> w1 \<le> 65535"
  shows "uint32_from_registers w0 w1 (order_name bo) (order_name wo) = spec_uint32 w0 w1 bo wo \<and>
         int32_from_registers w0 w1 (order_name bo) (order_name wo) = spec_int32 w0 w1 bo wo \<and>
         - (2 ^ 31) \<le> int32_from_registers w0 w1 (order_name bo) (order_name wo) \<and>
         int32_from_registers w0 w1 (order_name bo) (order_name wo) < 2 ^ 31 \<and>
         int32_from_registers w0 w1 (order_name bo) (order_name wo) mod 2 ^ 32
           = uint32_from_registers w0 w1 (order_name bo) (order_name wo)"
proof -
  have w: "word16 w0" "word16 w1" using assms by (simp_all add: word16_def)
  have u: "uint32_from_registers w0 w1 (order_name bo) (order_name wo) = spec_uint32 w0 w1 bo wo"
    by (rule uint32_refines[OF w])
  have i: "int32_from_registers w0 w1 (order_name bo) (order_name wo) = spec_int32 w0 w1 bo wo"
    by (simp add: int32_via_uint32 u spec_int32_def Let_def)
  show ?thesis unfolding u i using spec_int32_twos_complement[OF w, of bo wo] by simp
qed

theorem C3_decode32_witness:
  "(0 \<le> (0x3412::int) \<and> (0x3412::int) \<le> 65535) \<and> (0 \<le> (0xF6F8::int) \<and> (0xF6F8::int) \<le> 65535) \<and>
   uint32_from_registers 0x3412 0xF6F8 ''little'' ''little'' = 0xF8F61234 \<and>
   int32_from_registers 0x3412 0xF6F8 ''little'' ''little'' = - 0x0709EDCC"
proof -
  have u: "spec_uint32 0x3412 0xF6F8 Little Little = 0xF8F61234"
    by (simp add: spec_uint32_def ordered_words_def byte_swap_def)
  have i: "spec_int32 0x3412 0xF6F8 Little Little = - 0x0709EDCC"
    by (simp add: spec_int32_def u)
  from C3_decode32[of "0x3412" "0xF6F8" Little Little] u i show ?thesis by simp
qed

lemma convert_from_registers_short:
  "dtype \<in> set [''int32'', ''uint32'', ''float''] \<Longrightarrow> length regs < 2 \<Longrightarrow>
   convert_from_registers regs dtype b w sc off pr = Inl ValueError"
  by (cases regs; cases "tl regs") (auto simp: convert_from_registers_def)

lemma convert_from_registers_unknown:
  "dtype \<notin> set [''int16'', ''uint16'', ''bool'', ''int32'', ''uint32'', ''float''] \<Longrightarrow>
   convert_from_registers regs dtype b w sc off pr = Inl ValueError"
  by (cases regs) (auto simp: convert_from_registers_def)

lemma convert_value_passes:
  "dtype \<notin> set [''int16'', ''uint16'', ''bool''] \<Longrightarrow>
   convert_value raw dtype sc off pr b w = Inr (Scaled (PyInt raw) sc off pr)"
  by (simp add: convert_value_def)

text \<open>
  Claim C4, as stated, fails on the single-word path: \<open>convert_value\<close> has no error
  branch. Given one word and the type \<open>int32\<close> it returns the scaled raw word.
\<close>

theorem C4_convert_value_counterexample:
  "convert_value 5 ''int32'' 1 0 2 ''big'' ''big'' = Inr (Scaled (PyInt 5) 1 0 2)"
  by (simp add: convert_value_def)

text \<open>
  Claim C4, amended: on the multi-word path \<open>convert_from_registers\<close> fails with
  \<open>ValueError\<close> for every 32-bit type given fewer than two words and for every unknown
  data type; the single-word path \<open>convert_value\<close> never fails, and for every type other
  than \<open>int16\<close>, \<open>uint16\<close> and \<open>bool\<close> it returns the raw word, scaled.
\<close>

theorem C4_decoder_errors:
  "(dtype \<in> set [''int32'', ''uint32'', ''float''] \<and> length regs < 2 \<longrightarrow>
      convert_from_registers regs dtype b w sc off pr = Inl ValueError) \<and>
   (dtype \<notin> set [''int16'', ''uint16'', ''bool'', ''int32'', ''uint32'', ''float''] \<longrightarrow>
      convert_from_registers regs dtype b w sc off pr = Inl ValueError) \<and>
   (dtype \<notin> set [''int16'', ''uint16'', ''bool''] \<longrightarrow>
      convert_value raw dtype sc off pr b w = Inr (Scaled (PyInt raw) sc off pr)) \<and>
   \<not> isl (convert_value raw dtype sc off pr b w)"
  using convert_from_registers_short[of dtype regs b w sc off pr]
    convert_from_registers_unknown[of dtype regs b w sc off pr]
    convert_value_passes[of dtype raw sc off pr b w]
  by (auto simp: convert_value_def)

theorem C4_decoder_errors_witness:
  "convert_from_registers [7] ''float'' ''big'' ''big'' 1 0 2 = Inl ValueError \<and>
   convert_from_registers [7, 8] ''string'' ''big'' ''big'' 1 0 2 = Inl ValueError \<and>
   convert_value 7 ''float'' 1 0 2 ''big'' ''big'' = Inr (Scaled (PyInt 7) 1 0 2)"
  using C4_decoder_errors[of "''float''" "[7]" "''big''" "''big''" 1 0 2 7]
    C4_decoder_errors[of "''string''" "[7, 8]" "''big''" "''big''" 1 0 2 7]
  by simp

lemma parse_bits_snoc:
  "parse_bits acc (cs @ [c]) =
     (case parse_bits acc cs of None \<Rightarrow> None
      | Some a \<Rightarrow> (case bit_of_char c of None \<Rightarrow> None | Some b \<Rightarrow> Some (2 * a + b)))"
  by (induction cs arbitrary: acc) (auto split: option.splits)

lemma parse_bin_digits: "parse_bits 0 (bin_digits n) = Some (int n)"
proof (induction n rule: bin_digits.induct)
  case (1 n)
  show ?case
  proof (cases "n < 2")
    case True
    then have d: "bin_digits n = [if n = 0 then CHR ''0'' else CHR ''1'']"
      by (subst bin_digits.simps) simp
    from True have "n = 0 \<or> n = 1" by auto
    then show ?thesis unfolding d by auto
  next
    case False
    then have ih: "parse_bits 0 (bin_digits (n div 2)) = Some (int (n div 2))"
      using 1 by simp
    have "n = 2 * (n div 2) + n mod 2" by simp
    then have "int n = int (2 * (n div 2) + n mod 2)" by simp
    then have "int n = 2 * int (n div 2) + int (n mod 2)" by (simp only: of_nat_add of_nat_mult of_nat_numeral)
    moreover have "n mod 2 = 0 \<or> n mod 2 = 1" by auto
    ultimately show ?thesis using False ih
      by (subst bin_digits.simps) (auto simp: parse_bits_snoc)
  qed
qed

lemma parse_bits_zeros: "parse_bits 0 (replicate k (CHR ''0'') @ s) = parse_bits 0 s"
  by (induction k) auto

lemma bin_digits_length: "n < 2 ^ k \<Longrightarrow> 0 < k \<Longrightarrow> length (bin_digits n) \<le> k"
proof (induction n arbitrary: k rule: bin_digits.induct)
  case (1 n)
  show ?case
  proof (cases "n < 2")
    case True
    then show ?thesis using 1(3) by (simp add: bin_digits.simps[of n])
  next
    case False
    then obtain j where k: "k = Suc j" and j: "0 < j"
      using 1(2,3) by (cases k; cases "k - 1") auto
    have "n div 2 < 2 ^ j" using 1(2) k by auto
    then have "length (bin_digits (n div 2)) \<le> j" using 1(1)[OF False _ j] by simp
    then show ?thesis using False k
      by (subst bin_digits.simps) simp
  qed
qed

lemma bin_digits_nonempty: "bin_digits n \<noteq> []"
  by (subst bin_digits.simps) simp

lemma format_08b_byte:
  assumes "0 \<le> b" "b < 256"
  shows "length (format_08b b) = 8 \<and> int_base2 (format_08b b) = Inr b"
proof -
  have "nat b < 2 ^ 8" using assms by auto
  then have l: "length (bin_digits (nat b)) \<le> 8" by (intro bin_digits_length) auto
  have f: "format_08b b = replicate (8 - length (bin_digits (nat b))) (CHR ''0'') @ bin_digits (nat b)"
    using assms by (simp add: format_08b_def zero_pad_def)
  have len: "length (format_08b b) = 8" using l by (simp add: f)
  have "parse_bits 0 (format_08b b) = Some b"
    using assms by (simp add: f parse_bits_zeros parse_bin_digits)
  moreover have "format_08b b \<noteq> []" using len by auto
  ultimately show ?thesis using len by (simp add: int_base2_def)
qed

lemma bytes_of_word:
  assumes "0 \<le> v" "v \<le> 65535"
  shows "0 \<le> (v::int) AND 0xFF" "v AND 0xFF < 256"
        "0 \<le> drop_bit 8 v AND 0xFF" "drop_bit 8 v AND 0xFF < 256"
        "push_bit 8 (drop_bit 8 v AND 0xFF) OR (v AND 0xFF) = v"
proof -
  show "0 \<le> v AND 0xFF" "v AND 0xFF < 256" "0 \<le> drop_bit 8 v AND 0xFF" "drop_bit 8 v AND 0xFF < 256"
    by (simp_all add: and_255)
  have d: "drop_bit 8 v = v div 256" by (simp add: drop_bit_eq_div)
  have r: "0 \<le> v div 256" "v div 256 < 256" using assms by auto
  then have m: "(v div 256) mod 256 = v div 256" by simp
  have "push_bit 8 (v div 256) OR (v mod 256) = (v div 256) * 2 ^ 8 + v mod 256"
    by (intro push_bit_or_add) auto
  then show "push_bit 8 (drop_bit 8 v AND 0xFF) OR (v AND 0xFF) = v"
    by (simp add: and_255 d m)
qed

text \<open>
  Claim C10: for every register value \<open>v\<close> in \<open>0..65535\<close> and each of the byte orders
  \<open>big\<close> and \<open>little\<close>, \<open>register_to_bits\<close> returns a string of 16 characters that
  \<open>register_bits_to_bytes\<close> turns back into \<open>v\<close>.
\<close>

theorem C10_roundtrip:
  assumes "0 \<le> v \<and> v \<le> 65535" "byteorder \<in> {''big'', ''little''}"
  shows "\<exists>bits. register_to_bits v byteorder = Inr bits \<and> length bits = 16 \<and>
           register_bits_to_bytes bits byteorder = Inr v"
proof -
  define hi where "hi = drop_bit 8 v AND 0xFF"
  define lo where "lo = v AND 0xFF"
  have b: "0 \<le> lo" "lo < 256" "0 \<le> hi" "hi < 256" "push_bit 8 hi OR lo = v"
    using bytes_of_word[of v] assms(1) by (simp_all add: hi_def lo_def)
  have fh: "length (format_08b hi) = 8" "int_base2 (format_08b hi) = Inr hi"
    and fl: "length (format_08b lo) = 8" "int_base2 (format_08b lo) = Inr lo"
    using format_08b_byte[of hi] format_08b_byte[of lo] b by simp_all
  have ne: "''big'' \<noteq> ''little''" by simp
  from assms(2) consider "byteorder = ''big''" | "byteorder = ''little''" by auto
  then show ?thesis
  proof cases
    case 1
    have "register_to_bits v byteorder = Inr (format_08b hi @ format_08b lo)"
      using assms(1) unfolding register_to_bits_def hi_def lo_def 1 by simp
    moreover have "register_bits_to_bytes (format_08b hi @ format_08b lo) byteorder = Inr v"
      unfolding register_bits_to_bytes_def 1 using fh fl b(5) by simp
    ultimately show ?thesis using fh fl by simp
  next
    case 2
    have "register_to_bits v byteorder = Inr (format_08b lo @ format_08b hi)"
      using assms(1) unfolding register_to_bits_def hi_def lo_def 2 by simp
    moreover have "register_bits_to_bytes (format_08b lo @ format_08b hi) byteorder = Inr v"
      unfolding register_bits_to_bytes_def 2 using fh fl b(5) by simp
    ultimately show ?thesis using fh fl by simp
  qed
qed

theorem C10_roundtrip_witness:
  "\<exists>bits. register_to_bits 0x1234 ''little'' = Inr bits \<and> length bits = 16 \<and>
          register_bits_to_bytes bits ''little'' = Inr 0x1234"
  using C10_roundtrip[of "0x1234" "''little''"] by simp

lemma register_to_bits_example:
  "register_to_bits 0x1234 ''little'' = Inr ''0011010000010010''"
  by code_simp

section \<open>Properties of the port runner\<close>

lemma py_min_loop:
  "foldl (\<lambda>m y. if y < m then y else m) x ys = Min (insert (x::real) (set ys))"
proof (induction ys arbitrary: x)
  case Nil
  show ?case by simp
next
  case (Cons y ys)
  have e: "(if y < x then y else x) = min x y" by (simp add: min_def)
  show ?case
  proof (cases "ys = []")
    case True
    then show ?thesis by (simp add: e min.commute)
  next
    case False
    then have ne: "set ys \<noteq> {}" by simp
    have "Min (insert (min x y) (set ys)) = min (min x y) (Min (set ys))"
      using ne by simp
    also have "\<dots> = min x (min y (Min (set ys)))" by (simp add: min.assoc)
    also have "\<dots> = Min (insert x (insert y (set ys)))" using ne by simp
    finally show ?thesis using Cons[of "min x y"] by (simp add: e)
  qed
qed

lemma py_min_Min: "xs \<noteq> [] \<Longrightarrow> py_min xs = Inr (Min (set xs))"
  by (cases xs) (simp_all add: py_min_loop)

text \<open>
  Claim C5, as stated, fails: the sleep does not depend on the time the cycle took. For a
  port with one enabled device polled every second the runner sleeps 0.95 s, whether the
  cycle took half a second (the claim: 0.5 s) or two seconds (the claim: no sleep).
\<close>

theorem C5_elapsed_counterexample:
  "adjust_polling_interval demo_port \<noteq> Inr (Sleep (spec_sleep (1 / 2) demo_port)) \<and>
   adjust_polling_interval demo_port = Inr (Sleep (19 / 20)) \<and>
   spec_sleep (1 / 2) demo_port = 1 / 2 \<and> spec_sleep 2 demo_port = 0"
  by (simp add: adjust_polling_interval_def demo_port_def estimated_device_time_def
        spec_sleep_def min_device_poll_interval_def)

text \<open>
  Claim C5, amended: for a port with an enabled device the runner takes as cycle time the
  estimate of 0.05 s for each configured device, and sleeps exactly
  \<open>max 0 (min_device_poll_interval - cycle_time)\<close>, where the interval is the minimum
  \<open>poll_interval\<close> over the enabled devices; when the estimate is not below the interval
  it logs the warning and does not sleep.
\<close>

theorem C5_interval:
  assumes "\<exists>d \<in> set (devices pc). dev_enabled d"
  shows "\<exists>a. adjust_polling_interval pc = Inr a \<and>
     sleep_time a = max 0 (min_device_poll_interval pc
                            - real (length (devices pc)) * estimated_device_time) \<and>
     (warns a \<longleftrightarrow> min_device_poll_interval pc
                            \<le> real (length (devices pc)) * estimated_device_time)"
proof -
  let ?en = "map poll_interval (filter dev_enabled (devices pc))"
  from assms have ne: "?en \<noteq> []" by (auto simp: filter_empty_conv)
  from assms have d: "devices pc \<noteq> []" by auto
  have m: "py_min ?en = Inr (min_device_poll_interval pc)"
    using py_min_Min[OF ne] by (simp add: min_device_poll_interval_def)
  show ?thesis
    by (simp add: adjust_polling_interval_def d m Let_def)
qed

theorem C5_interval_witness:
  "(\<exists>d \<in> set (devices demo_port). dev_enabled d) \<and>
   (\<exists>a. adjust_polling_interval demo_port = Inr a \<and> sleep_time a = 19 / 20 \<and> \<not> warns a)"
proof -
  have h: "\<exists>d \<in> set (devices demo_port). dev_enabled d" by (simp add: demo_port_def)
  have m: "min_device_poll_interval demo_port = 1"
    by (simp add: min_device_poll_interval_def demo_port_def)
  have l: "real (length (devices demo_port)) * estimated_device_time = 1 / 20"
    by (simp add: demo_port_def estimated_device_time_def)
  from C5_interval[OF h] show ?thesis unfolding m l using h by simp
qed

lemma poll_port_loop_exhausted:
  "max_retries pc \<le> retry_count st \<Longrightarrow> poll_port_loop pc st its = st"
  by (cases its) simp_all

lemma attempts_trace_one: "attempts_trace pc (Suc 0) = [ConnectFailed]"
  by (simp add: attempts_trace_def)

lemma attempts_trace_Suc:
  "attempts_trace pc (Suc (Suc j)) =
     ConnectFailed # RetrySleep (retry_delay pc) # attempts_trace pc (Suc j)"
  by (simp add: attempts_trace_def)

lemma count_attempts_trace: "0 < k \<Longrightarrow> count_list (attempts_trace pc k) ConnectFailed = k"
proof (induction k rule: nat_induct_non_zero)
  case 1
  show ?case by (simp add: attempts_trace_def)
next
  case (Suc k)
  then obtain j where "k = Suc j" by (cases k) auto
  with Suc show ?case by (simp add: attempts_trace_Suc)
qed

lemma count_failure_trace: "0 < k \<Longrightarrow> count_list (failure_trace pc k) ConnectFailed = k"
  by (simp add: failure_trace_def count_attempts_trace)

lemma poll_port_loop_failures:
  "retry_count st < max_retries pc \<Longrightarrow> k = nat (max_retries pc - retry_count st) \<Longrightarrow>
   poll_port_loop pc st (replicate k ConnectFails @ rest) =
     st\<lparr>retry_count := max_retries pc, events := events st @ attempts_trace pc k\<rparr>"
proof (induction k arbitrary: st)
  case 0
  then show ?case by simp
next
  case (Suc k)
  define st' where "st' = count_failure pc (st\<lparr>events := events st @ [ConnectFailed]\<rparr>)"
  have step: "poll_port_loop pc st (replicate (Suc k) ConnectFails @ rest) =
      poll_port_loop pc st' (replicate k ConnectFails @ rest)"
    using Suc.prems(1) by (simp add: st'_def)
  have rc: "retry_count st' = retry_count st + 1"
    by (simp add: st'_def count_failure_def Let_def)
  show ?case
  proof (cases k)
    case 0
    with Suc.prems have m: "retry_count st + 1 = max_retries pc" by simp
    have ev: "events st' = events st @ [ConnectFailed]"
      by (simp add: st'_def count_failure_def Let_def m)
    have "poll_port_loop pc st (replicate (Suc k) ConnectFails @ rest) =
        poll_port_loop pc st' (replicate k ConnectFails @ rest)"
      by (rule step)
    also have "\<dots> = poll_port_loop pc st' rest" by (simp add: 0)
    also have "\<dots> = st'"
      by (rule poll_port_loop_exhausted) (simp add: rc m)
    also have "\<dots> = st\<lparr>retry_count := max_retries pc,
        events := events st @ attempts_trace pc (Suc k)\<rparr>"
      by (simp add: st'_def count_failure_def Let_def m attempts_trace_one 0)
    finally show ?thesis .
  next
    case (Suc j)
    with Suc.prems have lt: "retry_count st + 1 < max_retries pc" by simp
    have ev: "events st' = events st @ [ConnectFailed, RetrySleep (retry_delay pc)]"
      by (simp add: st'_def count_failure_def Let_def lt)
    have "poll_port_loop pc st (replicate (Suc k) ConnectFails @ rest) =
        poll_port_loop pc st' (replicate k ConnectFails @ rest)"
      by (rule step)
    also have "\<dots> =
        st'\<lparr>retry_count := max_retries pc, events := events st' @ attempts_trace pc k\<rparr>"
    proof (rule Suc.IH)
      show "retry_count st' < max_retries pc" using lt by (simp add: rc)
      show "k = nat (max_retries pc - retry_count st')" using Suc.prems(2) by (simp add: rc)
    qed
    also have "\<dots> = st\<lparr>retry_count := max_retries pc,
             events := events st @ attempts_trace pc (Suc k)\<rparr>"
      unfolding ev by (simp add: st'_def count_failure_def Let_def Suc attempts_trace_Suc)
    finally show ?thesis .
  qed
qed

lemma adjust_polling_interval_enabled:
  assumes "d \<in> set (devices pc)" "dev_enabled d"
  shows "\<exists>a. adjust_polling_interval pc = Inr a"
proof -
  let ?en = "map poll_interval (filter dev_enabled (devices pc))"
  from assms have ne: "?en \<noteq> []" by (auto simp: filter_empty_conv)
  from assms have d: "devices pc \<noteq> []" by auto
  show ?thesis using py_min_Min[OF ne] by (simp add: adjust_polling_interval_def d Let_def)
qed

lemma poll_cycle_resets:
  "adjust_polling_interval pc = Inr a \<Longrightarrow> retry_count (poll_cycle pc st results) = 0"
  by (simp add: poll_cycle_def start_cycle_def Let_def)

lemma successful_poll_resets:
  assumes "\<exists>x \<in> set (zip (filter dev_enabled (devices pc)) results). is_success (snd x)"
  shows "retry_count (poll_cycle pc st results) = 0"
proof -
  from assms obtain d r where "(d, r) \<in> set (zip (filter dev_enabled (devices pc)) results)"
    by auto
  then have "d \<in> set (filter dev_enabled (devices pc))" by (rule set_zip_leftD)
  then have "d \<in> set (devices pc)" "dev_enabled d" by simp_all
  then obtain a where "adjust_polling_interval pc = Inr a"
    using adjust_polling_interval_enabled by blast
  then show ?thesis by (rule poll_cycle_resets)
qed

lemma failures_leave_statistics:
  "run_stats (poll_port_loop pc st (replicate n ConnectFails)) = run_stats st"
proof (induction n arbitrary: st)
  case 0
  show ?case by simp
next
  case (Suc n)
  show ?case by (simp add: Suc count_failure_def Let_def)
qed

text \<open>
  Claim C8, as stated, fails. With \<open>max_retries = 3\<close> and connections that keep failing the
  runner makes three connection attempts, not four. No branch of the run records a poll, so
  the statistics stay those of the fresh recorder and the status derived from them is
  \<open>DISCONNECTED\<close>, not \<open>ERROR\<close>. And a run of failures does not always start from zero:
  on a port whose only device is disabled the cycle ends in an exception that raises the
  counter to one, and the failures that follow take two attempts.
\<close>

theorem C8_attempts_counterexample:
  "count_list (events (poll_port demo_port (init_statistics ''port1'') five_failures))
      ConnectFailed = 3 \<and>
   int (count_list (events (poll_port demo_port (init_statistics ''port1'') five_failures))
      ConnectFailed) \<noteq> max_retries demo_port + 1 \<and>
   get_port_status
      [''port1'' \<mapsto> run_stats (poll_port demo_port (init_statistics ''port1'') five_failures)]
      ''port1''
     = PortView DISCONNECTED (get_stats (init_statistics ''port1'')) \<and>
   events (poll_port disabled_port (init_statistics ''port1'') (Connected [] # five_failures))
     = [PollCycle, CycleFailed, RetrySleep 5, ConnectFailed, RetrySleep 5, ConnectFailed,
        RetriesExceeded]"
proof -
  have e: "poll_port demo_port (init_statistics ''port1'') five_failures =
      \<lparr>retry_count = 3, run_stats = init_statistics ''port1'',
       events = [ConnectFailed, RetrySleep 5, ConnectFailed, RetrySleep 5, ConnectFailed,
                 RetriesExceeded]\<rparr>"
    by (simp add: poll_port_def after_loop_def five_failures_def demo_port_def
          count_failure_def Let_def)
  have s: "get_port_status [''port1'' \<mapsto> init_statistics ''port1''] ''port1''
      = PortView DISCONNECTED (get_stats (init_statistics ''port1''))"
    by (simp add: get_port_status_def Let_def status_of_stats_def get_stats_def
          init_statistics_def)
  have d: "events (poll_port disabled_port (init_statistics ''port1'')
        (Connected [] # five_failures))
     = [PollCycle, CycleFailed, RetrySleep 5, ConnectFailed, RetrySleep 5, ConnectFailed,
        RetriesExceeded]"
    by (simp add: poll_port_def after_loop_def five_failures_def disabled_port_def
          count_failure_def poll_cycle_def start_cycle_def adjust_polling_interval_def Let_def)
  show ?thesis unfolding e d using s by (simp add: demo_port_def)
qed

text \<open>
  Claim C8, amended. A run of consecutive connection failures that the runner meets with
  its retry counter at \<open>r < max_retries\<close> makes it perform exactly \<open>max_retries - r\<close>
  connection attempts, with a sleep of \<open>retry_delay\<close> between each two consecutive
  attempts, whatever would follow; it then logs the error and ends its loop, and the
  statistics of the port are as they were. From the start, where the counter is zero, this
  is exactly \<open>max_retries\<close> attempts; with \<open>max_retries \<le> 0\<close> the loop ends before any
  attempt. A successful device poll resets the retry counter to zero: after every cycle in
  which a poll of an enabled device returned data the counter is zero.
\<close>

theorem C8_retry:
  "(retry_count st < max_retries pc \<longrightarrow>
      after_loop pc (poll_port_loop pc st
          (replicate (nat (max_retries pc - retry_count st)) ConnectFails @ rest))
        = st\<lparr>retry_count := max_retries pc,
             events := events st @ failure_trace pc (nat (max_retries pc - retry_count st))\<rparr> \<and>
      count_list (failure_trace pc (nat (max_retries pc - retry_count st))) ConnectFailed
        = nat (max_retries pc - retry_count st)) \<and>
   (0 < max_retries pc \<longrightarrow>
      poll_port pc s (replicate (nat (max_retries pc)) ConnectFails @ rest)
        = \<lparr>retry_count = max_retries pc, run_stats = s,
           events = failure_trace pc (nat (max_retries pc))\<rparr>) \<and>
   (max_retries pc \<le> 0 \<longrightarrow>
      poll_port pc s its = \<lparr>retry_count = 0, run_stats = s, events = [RetriesExceeded]\<rparr>) \<and>
   ((\<exists>x \<in> set (zip (filter dev_enabled (devices pc)) results). is_success (snd x)) \<longrightarrow>
      retry_count (poll_cycle pc st results) = 0)"
proof (intro conjI impI)
  assume a: "retry_count st < max_retries pc"
  show "after_loop pc (poll_port_loop pc st
          (replicate (nat (max_retries pc - retry_count st)) ConnectFails @ rest))
        = st\<lparr>retry_count := max_retries pc,
             events := events st @ failure_trace pc (nat (max_retries pc - retry_count st))\<rparr>"
    by (simp add: poll_port_loop_failures[OF a refl] after_loop_def failure_trace_def)
  show "count_list (failure_trace pc (nat (max_retries pc - retry_count st))) ConnectFailed
        = nat (max_retries pc - retry_count st)"
    using a by (intro count_failure_trace) simp
next
  assume a: "0 < max_retries pc"
  let ?st = "\<lparr>retry_count = 0, run_stats = s, events = []\<rparr>"
  have "retry_count ?st < max_retries pc" using a by simp
  from poll_port_loop_failures[OF this refl, of rest]
  show "poll_port pc s (replicate (nat (max_retries pc)) ConnectFails @ rest)
        = \<lparr>retry_count = max_retries pc, run_stats = s,
           events = failure_trace pc (nat (max_retries pc))\<rparr>"
    by (simp add: poll_port_def after_loop_def failure_trace_def)
next
  assume a: "max_retries pc \<le> 0"
  then have "poll_port_loop pc \<lparr>retry_count = 0, run_stats = s, events = []\<rparr> its
      = \<lparr>retry_count = 0, run_stats = s, events = []\<rparr>"
    by (intro poll_port_loop_exhausted) simp
  then show "poll_port pc s its = \<lparr>retry_count = 0, run_stats = s, events = [RetriesExceeded]\<rparr>"
    using a by (simp add: poll_port_def after_loop_def)
next
  assume "\<exists>x \<in> set (zip (filter dev_enabled (devices pc)) results). is_success (snd x)"
  then show "retry_count (poll_cycle pc st results) = 0"
    by (rule successful_poll_resets)
qed

theorem C8_retry_witness:
  "after_loop demo_port (poll_port_loop demo_port
       \<lparr>retry_count = 1, run_stats = init_statistics ''port1'', events = []\<rparr>
       (replicate 2 ConnectFails @ [Connected []]))
     = \<lparr>retry_count = 3, run_stats = init_statistics ''port1'',
        events = [ConnectFailed, RetrySleep 5, ConnectFailed, RetriesExceeded]\<rparr> \<and>
   poll_port demo_port (init_statistics ''port1'') (replicate 3 ConnectFails @ [Connected []])
     = \<lparr>retry_count = 3, run_stats = init_statistics ''port1'',
        events = [ConnectFailed, RetrySleep 5, ConnectFailed, RetrySleep 5, ConnectFailed,
                  RetriesExceeded]\<rparr> \<and>
   poll_port no_retry_port (init_statistics ''port1'') five_failures
     = \<lparr>retry_count = 0, run_stats = init_statistics ''port1'', events = [RetriesExceeded]\<rparr> \<and>
   retry_count (poll_cycle demo_port
       \<lparr>retry_count = 1, run_stats = init_statistics ''port1'', events = []\<rparr>
       [PollData 1 (1 / 50)]) = 0"
proof -
  have m: "max_retries demo_port = 3" "retry_delay demo_port = 5"
    "max_retries no_retry_port = 0"
    by (simp_all add: demo_port_def no_retry_port_def)
  have z: "\<exists>x \<in> set (zip (filter dev_enabled (devices demo_port)) [PollData 1 (1 / 50)]).
      is_success (snd x)"
    by (simp add: demo_port_def)
  have f: "failure_trace demo_port 2 = [ConnectFailed, RetrySleep 5, ConnectFailed, RetriesExceeded]"
    "failure_trace demo_port 3
       = [ConnectFailed, RetrySleep 5, ConnectFailed, RetrySleep 5, ConnectFailed, RetriesExceeded]"
    by (simp_all add: failure_trace_def attempts_trace_def m numeral_eq_Suc)
  from C8_retry[of "\<lparr>retry_count = 1, run_stats = init_statistics ''port1'', events = []\<rparr>"
      demo_port "[Connected []]" "init_statistics ''port1''" "[]" "[PollData 1 (1 / 50)]"]
    C8_retry[of "\<lparr>retry_count = 1, run_stats = init_statistics ''port1'', events = []\<rparr>"
      no_retry_port "[]" "init_statistics ''port1''" five_failures "[]"]
    z
  show ?thesis by (simp add: m f)
qed

text \<open>
  The decorator follows the same rule: when every call raises, \<open>async_retry\<close> makes
  \<open>max_retries\<close> calls in all, with a sleep between each two of them.
\<close>

lemma async_retry_loop_all_fail:
  assumes f: "\<And>i. func i = None"
  shows "int (a + k) = m \<Longrightarrow>
   async_retry_loop m d func a k = (k, replicate (k - 1) d, None)"
proof (induction k arbitrary: a)
  case 0
  show ?case by simp
next
  case (Suc k)
  have "int (Suc a + k) = m" using Suc.prems by simp
  note ih = Suc.IH[OF this]
  have c: "int a < m - 1 \<longleftrightarrow> 0 < k" using Suc.prems by auto
  have step: "async_retry_loop m d func a (Suc k) =
      (Suc k, (if int a < m - 1 then [d] else []) @ replicate (k - 1) d, None)"
    by (simp add: ih f)
  show ?case unfolding step c by (cases k) simp_all
qed

lemma async_retry_all_fail:
  assumes "\<And>i. func i = None"
  shows "async_retry m d func = (nat m, replicate (nat m - 1) d, None)"
proof (cases "0 \<le> m")
  case True
  then show ?thesis unfolding async_retry_def
    by (intro async_retry_loop_all_fail assms) simp
next
  case False
  then show ?thesis by (simp add: async_retry_def)
qed

section \<open>Properties of the block coalescer\<close>

text \<open>
  Claim C1 on the registers of scenario S4: the coalescer of the source compares register
  addresses only (\<open>address = previous address + 1\<close>) and counts one address for each
  register, whatever its data type. It returns the blocks \<open>(10, 2)\<close>, \<open>(13, 1)\<close> and
  \<open>(20, 1)\<close>, where the algorithm of the specification, with the \<open>float\<close> at 11 taken as
  two addresses wide, returns \<open>(10, 4)\<close> and \<open>(20, 1)\<close>.
\<close>

theorem C1_s4_blocks:
  "group_registers_by_type s4_registers = [(HOLDING, s4_registers)] \<and>
   group_registers_into_blocks s4_registers = [(10, 2), (13, 1), (20, 1)] \<and>
   spec_blocks s4_registers = [(10, 4), (20, 1)]"
  by (simp add: group_registers_by_type_def group_registers_into_blocks_def s4_registers_def
        holding_register_def spec_blocks_def register_span_def register_count_def)

text \<open>
  Claim C2 on a single \<open>float\<close> register at address 11: the only block is \<open>(11, 1)\<close>,
  which does not hold the second address of the register.
\<close>

theorem C2_float_span_uncovered:
  "group_registers_into_blocks [holding_register 11 FLOAT] = [(11, 1)] \<and>
   \<not> span_in_block (holding_register 11 FLOAT) (11, 1)"
  by (simp add: group_registers_into_blocks_def holding_register_def span_in_block_def
        register_count_def)

text \<open>
  What the coalescer of the source does guarantee: the blocks hold the address of every
  register, their sizes add up to the number of registers (so to no more than the sum of
  the spans), and for registers with distinct addresses the blocks are in ascending order
  and neither overlap nor touch.
\<close>

lemma blocks_loop_acc:
  "blocks_loop rs prev start count blocks = blocks @ blocks_loop rs prev start count []"
proof (induction rs arbitrary: prev start count blocks)
  case Nil
  show ?case by simp
next
  case (Cons r rs)
  show ?case
  proof (cases "address r = prev + 1")
    case True
    then show ?thesis using Cons[of "address r" start "count + 1" blocks] by simp
  next
    case False
    then show ?thesis
      using Cons[of "address r" "address r" 1 "blocks @ [(start, count)]"]
        Cons[of "address r" "address r" 1 "[(start, count)]"]
      by simp
  qed
qed

lemma blocks_loop_Cons:
  "blocks_loop (r # rs) prev start count [] =
     (if address r = prev + 1 then blocks_loop rs (address r) start (count + 1) []
      else (start, count) # blocks_loop rs (address r) (address r) 1 [])"
  using blocks_loop_acc[of rs "address r" "address r" 1 "[(start, count)]"] by simp

lemma blocks_loop_counts:
  "sum_list (map snd (blocks_loop rs prev start count [])) = count + int (length rs)"
  by (induction rs arbitrary: prev start count) (simp_all add: blocks_loop_Cons del: blocks_loop.simps(2))

lemma blocks_loop_head:
  "blocks_loop rs prev start count [] \<noteq> [] \<and> fst (hd (blocks_loop rs prev start count [])) = start"
  by (induction rs arbitrary: prev start count) (simp_all add: blocks_loop_Cons del: blocks_loop.simps(2))

lemma separated_Cons:
  "bs \<noteq> [] \<Longrightarrow> separated (b # bs) = (fst b + snd b < fst (hd bs) \<and> separated bs)"
  by (cases bs) simp_all

lemma blocks_loop_separated:
  "sorted_wrt (<) (prev # map address rs) \<Longrightarrow> prev = start + count - 1 \<Longrightarrow>
   separated (blocks_loop rs prev start count [])"
proof (induction rs arbitrary: prev start count)
  case Nil
  show ?case by simp
next
  case (Cons r rs)
  from Cons.prems have lt: "prev < address r" and s: "sorted_wrt (<) (address r # map address rs)"
    by simp_all
  show ?case
  proof (cases "address r = prev + 1")
    case True
    have "separated (blocks_loop rs (address r) start (count + 1) [])"
      using Cons.prems(2) True by (intro Cons.IH[OF s]) simp
    with True show ?thesis by (simp add: blocks_loop_Cons del: blocks_loop.simps(2))
  next
    case False
    have "separated (blocks_loop rs (address r) (address r) 1 [])"
      by (intro Cons.IH[OF s]) simp
    moreover have "start + count < address r" using lt False Cons.prems(2) by simp
    ultimately show ?thesis using False blocks_loop_head[of rs "address r" "address r" 1]
      by (simp add: blocks_loop_Cons separated_Cons del: blocks_loop.simps(2))
  qed
qed

lemma blocks_loop_covers:
  "prev = start + count - 1 \<Longrightarrow> 0 < count \<Longrightarrow>
   (start \<le> a \<and> a \<le> prev) \<or> a \<in> address ` set rs \<Longrightarrow>
   \<exists>b \<in> set (blocks_loop rs prev start count []). block_covers b a"
proof (induction rs arbitrary: prev start count)
  case Nil
  then show ?case by (simp add: block_covers_def)
next
  case (Cons r rs)
  show ?case
  proof (cases "address r = prev + 1")
    case True
    have "\<exists>b \<in> set (blocks_loop rs (address r) start (count + 1) []). block_covers b a"
    proof (rule Cons.IH)
      show "address r = start + (count + 1) - 1" using True Cons.prems(1) by simp
      show "0 < count + 1" using Cons.prems(2) by simp
      show "(start \<le> a \<and> a \<le> address r) \<or> a \<in> address ` set rs"
        using Cons.prems True by auto
    qed
    with True show ?thesis by (simp add: blocks_loop_Cons del: blocks_loop.simps(2))
  next
    case False
    show ?thesis
    proof (cases "start \<le> a \<and> a \<le> prev")
      case True
      then have "block_covers (start, count) a" using Cons.prems(1) by (simp add: block_covers_def)
      with False show ?thesis by (simp add: blocks_loop_Cons del: blocks_loop.simps(2))
    next
      case out: False
      have "\<exists>b \<in> set (blocks_loop rs (address r) (address r) 1 []). block_covers b a"
      proof (rule Cons.IH)
        show "address r = address r + 1 - 1" by simp
        show "(0::int) < 1" by simp
        show "(address r \<le> a \<and> a \<le> address r) \<or> a \<in> address ` set rs"
          using Cons.prems(3) out by auto
      qed
      with False show ?thesis by (simp add: blocks_loop_Cons del: blocks_loop.simps(2))
    qed
  qed
qed

lemma distinct_map_insort_key:
  "distinct (map f (insort_key f x xs)) \<longleftrightarrow> f x \<notin> f ` set xs \<and> distinct (map f xs)"
  by (induction xs) (auto simp: set_insort_key)

lemma sort_key_addresses:
  "distinct (map address regs) \<Longrightarrow> sorted_wrt (<) (map address (sort_key address regs))"
proof -
  assume d: "distinct (map address regs)"
  have "distinct (map address (sort_key address regs))"
    using d by (induction regs) (simp_all add: distinct_map_insort_key)
  then show ?thesis by (simp add: strict_sorted_iff)
qed

lemma coalescer_separated:
  "distinct (map address regs) \<Longrightarrow> separated (group_registers_into_blocks regs)"
proof -
  assume d: "distinct (map address regs)"
  show ?thesis
  proof (cases "sort_key address regs")
    case Nil
    then show ?thesis by (simp add: group_registers_into_blocks_def)
  next
    case (Cons r rs)
    have "sorted_wrt (<) (address r # map address rs)"
      using sort_key_addresses[OF d] Cons by simp
    then have "separated (blocks_loop rs (address r) (address r) 1 [])"
      by (rule blocks_loop_separated) simp
    then show ?thesis by (simp add: group_registers_into_blocks_def Cons)
  qed
qed

lemma coalescer_covers_addresses:
  "r \<in> set regs \<Longrightarrow> \<exists>b \<in> set (group_registers_into_blocks regs). block_covers b (address r)"
proof -
  assume r: "r \<in> set regs"
  then have m: "r \<in> set (sort_key address regs)" by simp
  show ?thesis
  proof (cases "sort_key address regs")
    case Nil
    with m show ?thesis by simp
  next
    case (Cons r0 rs)
    have "\<exists>b \<in> set (blocks_loop rs (address r0) (address r0) 1 []). block_covers b (address r)"
    proof (rule blocks_loop_covers)
      show "address r0 = address r0 + 1 - 1" by simp
      show "(0::int) < 1" by simp
      show "(address r0 \<le> address r \<and> address r \<le> address r0) \<or> address r \<in> address ` set rs"
        using m Cons by auto
    qed
    then show ?thesis by (simp add: group_registers_into_blocks_def Cons)
  qed
qed

lemma coalescer_total_count:
  "sum_list (map snd (group_registers_into_blocks regs)) = int (length regs)"
proof (cases "sort_key address regs")
  case Nil
  then have "regs = []" by (metis length_sort list.size(3) length_0_conv)
  then show ?thesis by (simp add: group_registers_into_blocks_def)
next
  case (Cons r rs)
  have "length regs = Suc (length rs)" by (metis Cons length_sort length_Cons)
  then show ?thesis by (simp add: group_registers_into_blocks_def Cons blocks_loop_counts)
qed

lemma register_count_ge: "1 \<le> register_count r"
  by (simp add: register_count_def)

lemma coalescer_count_le_spans:
  "sum_list (map snd (group_registers_into_blocks regs)) \<le> sum_list (map register_count regs)"
proof -
  have "int (length regs) \<le> sum_list (map register_count regs)"
    by (induction regs) (simp_all add: register_count_ge add_mono)
  then show ?thesis by (simp add: coalescer_total_count)
qed

end
